theory Spec2Isabelle
  imports Main "HOL-Library.Multiset"
begin

section \<open>Task manager: ownership-scoped task routes and the bearer-token gate\<close>

text \<open>
  A shallow embedding of \<^verbatim>\<open>routes/tasks.js\<close> (the five task routes) and of the
  \<^verbatim>\<open>protect\<close> middleware of \<^verbatim>\<open>middleware/auth.js\<close>. The task collection is an
  explicit state, a list of documents in insertion order, passed to every route and
  returned by it. A route either answers itself (\<^verbatim>\<open>res.status(..).json(..)\<close>) or
  hands an exception to \<^verbatim>\<open>next(error)\<close>; both are values of the type \<open>failure\<close>.

  Request fields (\<^verbatim>\<open>req.body.title\<close>, \<^verbatim>\<open>req.query.search\<close>, ...) are JSON
  strings or absent: \<open>None\<close> is JavaScript's \<^verbatim>\<open>undefined\<close>. Identifiers are
  well-formed ObjectIds, modelled as natural numbers; timestamps are natural numbers.

  A JavaScript string is a sequence of UTF-16 code units, here a list of natural numbers,
  so that every character a request can carry has its place; \<open>js\<close> writes such a
  string from an ASCII literal. The fixed messages of the responses and the
  \<^verbatim>\<open>Authorization\<close> header stay ordinary strings.
\<close>

subsection \<open>Documents and responses\<close>

type_synonym oid = nat

type_synonym jstring = "nat list"

definition js :: "string \<Rightarrow> jstring" where
  "js s = map of_char s"

record task =
  tid :: oid
  title :: jstring
  description :: jstring
  status :: jstring
  owner :: oid
  createdAt :: nat
  updatedAt :: nat

text \<open>
  What a Mongoose call throws; the routes pass it on with \<^verbatim>\<open>next(error)\<close>.
  \<open>ValidatorError p\<close> is Mongoose's \<^verbatim>\<open>ValidationError\<close> raised by the validator of
  the path \<open>p\<close>; \<open>BadRegex\<close> is the engine's refusal of a \<^verbatim>\<open>$regex\<close> that is no
  regular expression.
\<close>

datatype model_error = ValidatorError string | DuplicateKey | BadRegex

datatype failure = Responded nat string | Forwarded model_error

fun status_code :: "failure \<Rightarrow> nat option" where
  "status_code (Responded c m) = Some c"
| "status_code (Forwarded e) = None"

fun message :: "failure \<Rightarrow> string option" where
  "message (Responded c m) = Some m"
| "message (Forwarded e) = None"

text \<open>The fixed responses of the routes, under the names the specification gives them.\<close>

definition ValidationError :: failure where
  "ValidationError = Responded 400 ''Title is required''"

definition InvalidStatusError :: failure where
  "InvalidStatusError =
     Responded 400 ''Invalid status. Must be: pending, in-progress, or completed''"

definition NotFoundError :: failure where
  "NotFoundError = Responded 404 ''Task not found''"

definition MissingTokenError :: failure where
  "MissingTokenError = Responded 401 ''Not authorized, no token provided''"

definition InvalidTokenError :: failure where
  "InvalidTokenError = Responded 401 ''Not authorized, invalid token''"

definition UserNotFound :: failure where
  "UserNotFound = Responded 401 ''User not found''"

subsection \<open>JavaScript idioms\<close>

text \<open>\<^verbatim>\<open>!x\<close> on a string or \<^verbatim>\<open>undefined\<close>: the empty string and \<^verbatim>\<open>undefined\<close> are falsy.\<close>

fun truthy :: "jstring option \<Rightarrow> bool" where
  "truthy None = False"
| "truthy (Some s) = (s \<noteq> [])"

text \<open>\<^verbatim>\<open>x || d\<close>.\<close>

fun or_default :: "jstring option \<Rightarrow> jstring \<Rightarrow> jstring" where
  "or_default None d = d"
| "or_default (Some s) d = (if s = [] then d else s)"

text \<open>\<^verbatim>\<open>['pending', 'in-progress', 'completed']\<close>, as both routes that test it write it.\<close>

definition status_enum :: "jstring list" where
  "status_enum = [js ''pending'', js ''in-progress'', js ''completed'']"

text \<open>
  \<^verbatim>\<open>String.prototype.trim\<close> removes, at both ends, the code units that ECMAScript calls
  WhiteSpace or LineTerminator: U+0009 to U+000D, U+0020, U+00A0, U+1680, U+2000 to
  U+200A, U+2028, U+2029, U+202F, U+205F, U+3000 and U+FEFF.
\<close>

definition is_space :: "nat \<Rightarrow> bool" where
  "is_space c =
     ((9 \<le> c \<and> c \<le> 13) \<or> c = 32 \<or> c = 160 \<or> c = 5760 \<or> (8192 \<le> c \<and> c \<le> 8202)
      \<or> c = 8232 \<or> c = 8233 \<or> c = 8239 \<or> c = 8287 \<or> c = 12288 \<or> c = 65279)"

definition trim :: "jstring \<Rightarrow> jstring" where
  "trim s = rev (dropWhile is_space (rev (dropWhile is_space s)))"

subsection \<open>The Task model\<close>

text \<open>
  \<^verbatim>\<open>models/Task.js\<close>, the Mongoose schema of a task, is not among the sources. The
  specification gives it as: title trimmed, required and non-empty; description a string,
  default empty; status one of the three enum values, default \<^verbatim>\<open>pending\<close>; owner
  required and stamped at creation; created and updated timestamps, the latter refreshed
  on every save. The four definitions that follow are that schema at work.
\<close>

text \<open>
  Modelled from the spec: the title of the absent schema is ``trimmed''; the trim is a
  setter, applied whenever a title is assigned to a document.
\<close>

definition set_title :: "jstring \<Rightarrow> task \<Rightarrow> task" where
  "set_title x t = t\<lparr>title := trim x\<rparr>"

text \<open>
  Modelled from the spec: the validators of the absent schema, run by \<^verbatim>\<open>create\<close> and
  by \<^verbatim>\<open>save\<close>: the title is required and non-empty, the status is one of the three
  enum values. \<open>None\<close> is a valid document; otherwise the exception thrown.
\<close>

definition validate :: "task \<Rightarrow> model_error option" where
  "validate t =
     (if title t = [] then Some (ValidatorError ''title'')
      else if status t \<notin> set status_enum then Some (ValidatorError ''status'')
      else None)"

text \<open>
  Modelled from the spec: \<^verbatim>\<open>Task.create({title, description, status, user})\<close> under
  the absent schema: the title goes through its setter, the document is validated, both
  timestamps are the time of creation. The engine supplies the new identifier and the
  clock; the unique index on \<^verbatim>\<open>_id\<close> refuses a duplicate.
\<close>

definition Task_create ::
  "oid \<Rightarrow> nat \<Rightarrow> jstring \<Rightarrow> jstring \<Rightarrow> jstring \<Rightarrow> oid \<Rightarrow> task list
   \<Rightarrow> model_error + (task \<times> task list)"
where
  "Task_create newId now ti de st u store =
     (let doc = set_title ti \<lparr>tid = newId, title = [], description = de, status = st,
                               owner = u, createdAt = now, updatedAt = now\<rparr>
      in case validate doc of
           Some e \<Rightarrow> Inl e
         | None \<Rightarrow> if newId \<in> set (map tid store) then Inl DuplicateKey
                   else Inr (doc, store @ [doc]))"

text \<open>
  Modelled from the spec: \<^verbatim>\<open>task.save()\<close> under the absent schema, for a document
  fetched as \<open>orig\<close> and now holding \<open>doc\<close>. The document is validated. Mongoose
  tracks which fields an assignment has changed: when none differs from the fetched
  value, \<^verbatim>\<open>save()\<close> writes nothing and the timestamps stay; otherwise the updated
  timestamp is refreshed (``refreshed on every mutation'') and the document is written
  back by identifier.
\<close>

definition Task_save ::
  "nat \<Rightarrow> task \<Rightarrow> task \<Rightarrow> task list \<Rightarrow> model_error + (task \<times> task list)"
where
  "Task_save now orig doc store =
     (case validate doc of
        Some e \<Rightarrow> Inl e
      | None \<Rightarrow>
          if doc = orig then Inr (doc, store)
          else (let doc' = doc\<lparr>updatedAt := now\<rparr>
                in Inr (doc', map (\<lambda>t. if tid t = tid doc' then doc' else t) store)))"

text \<open>\<^verbatim>\<open>Task.findOne({_id: id, user: userId})\<close>.\<close>

definition findOne :: "oid \<Rightarrow> oid \<Rightarrow> task list \<Rightarrow> task option" where
  "findOne i u store = find (\<lambda>t. tid t = i \<and> owner t = u) store"

text \<open>\<^verbatim>\<open>Task.findOneAndDelete({_id: id, user: userId})\<close>: removes the document it returns.\<close>

definition findOneAndDelete :: "oid \<Rightarrow> oid \<Rightarrow> task list \<Rightarrow> task option \<times> task list" where
  "findOneAndDelete i u store =
     (case findOne i u store of
        None \<Rightarrow> (None, store)
      | Some t \<Rightarrow> (Some t, remove1 t store))"

subsection \<open>The routes of \<^verbatim>\<open>routes/tasks.js\<close>\<close>

text \<open>\<^verbatim>\<open>GET /:id\<close>.\<close>

definition getOne :: "oid \<Rightarrow> oid \<Rightarrow> task list \<Rightarrow> failure + task" where
  "getOne u i store =
     (case findOne i u store of
        None \<Rightarrow> Inl NotFoundError
      | Some t \<Rightarrow> Inr t)"

text \<open>
  \<^verbatim>\<open>POST /\<close>: the only check of the route itself is \<^verbatim>\<open>!title\<close>, true of an
  absent title and of the empty string.
\<close>

definition create ::
  "oid \<Rightarrow> nat \<Rightarrow> oid \<Rightarrow> jstring option \<Rightarrow> jstring option \<Rightarrow> jstring option \<Rightarrow> task list
   \<Rightarrow> (failure + task) \<times> task list"
where
  "create newId now u ti de st store =
     (case ti of
        None \<Rightarrow> (Inl ValidationError, store)
      | Some x \<Rightarrow>
          if x = [] then (Inl ValidationError, store)
          else (case Task_create newId now x (or_default de []) (or_default st (js ''pending''))
                       u store of
                  Inl e \<Rightarrow> (Inl (Forwarded e), store)
                | Inr (t, store') \<Rightarrow> (Inr t, store')))"

text \<open>
  \<^verbatim>\<open>PUT /:id\<close>: the fields are assigned to the fetched document in memory; a status
  outside the enum returns before \<^verbatim>\<open>task.save()\<close>.
\<close>

definition update ::
  "nat \<Rightarrow> oid \<Rightarrow> oid \<Rightarrow> jstring option \<Rightarrow> jstring option \<Rightarrow> jstring option \<Rightarrow> task list
   \<Rightarrow> (failure + task) \<times> task list"
where
  "update now u i ti de st store =
     (case findOne i u store of
        None \<Rightarrow> (Inl NotFoundError, store)
      | Some t0 \<Rightarrow>
          (let t1 = (case ti of None \<Rightarrow> t0 | Some x \<Rightarrow> set_title x t0);
               t2 = (case de of None \<Rightarrow> t1 | Some d \<Rightarrow> t1\<lparr>description := d\<rparr>)
           in case st of
                None \<Rightarrow>
                  (case Task_save now t0 t2 store of
                     Inl e \<Rightarrow> (Inl (Forwarded e), store)
                   | Inr (t, store') \<Rightarrow> (Inr t, store'))
              | Some s \<Rightarrow>
                  if s \<in> set status_enum then
                    (case Task_save now t0 (t2\<lparr>status := s\<rparr>) store of
                       Inl e \<Rightarrow> (Inl (Forwarded e), store)
                     | Inr (t, store') \<Rightarrow> (Inr t, store'))
                  else (Inl InvalidStatusError, store)))"

text \<open>\<^verbatim>\<open>DELETE /:id\<close>.\<close>

definition delete :: "oid \<Rightarrow> oid \<Rightarrow> task list \<Rightarrow> (failure + unit) \<times> task list" where
  "delete u i store =
     (case findOneAndDelete i u store of
        (None, store') \<Rightarrow> (Inl NotFoundError, store')
      | (Some t, store') \<Rightarrow> (Inr (), store'))"

text \<open>
  \<^verbatim>\<open>GET /\<close>. The route builds a query object and hands it to \<^verbatim>\<open>Task.find\<close>. The
  title condition is \<^verbatim>\<open>{ $regex: search, $options: 'i' }\<close>: the search text is given to
  the engine, unescaped, as a regular expression. The engine is the parameter \<open>rx\<close>: for a
  text that is no regular expression it gives \<open>None\<close>, and \<^verbatim>\<open>Task.find\<close> rejects;
  otherwise it gives the test of a title against the pattern under option \<^verbatim>\<open>i\<close>.
\<close>

type_synonym engine = "jstring \<Rightarrow> (jstring \<Rightarrow> bool) option"

record query =
  q_user :: oid
  q_title :: "jstring option"
  q_status :: "jstring option"

definition build_query :: "oid \<Rightarrow> jstring option \<Rightarrow> jstring option \<Rightarrow> query" where
  "build_query u search st =
     \<lparr>q_user = u,
      q_title = (case search of None \<Rightarrow> None | Some p \<Rightarrow> if p = [] then None else Some p),
      q_status = (case st of None \<Rightarrow> None
                  | Some s \<Rightarrow> if s \<noteq> [] \<and> s \<in> set status_enum then Some s else None)\<rparr>"

text \<open>A document against the query, \<open>m\<close> being the compiled title pattern.\<close>

definition matches :: "(jstring \<Rightarrow> bool) \<Rightarrow> query \<Rightarrow> task \<Rightarrow> bool" where
  "matches m q t =
     (owner t = q_user q
      \<and> (case q_title q of None \<Rightarrow> True | Some p \<Rightarrow> m (title t))
      \<and> (case q_status q of None \<Rightarrow> True | Some s \<Rightarrow> status t = s))"

definition Task_find :: "engine \<Rightarrow> query \<Rightarrow> task list \<Rightarrow> model_error + task list" where
  "Task_find rx q store =
     (case q_title q of
        None \<Rightarrow> Inr (filter (matches (\<lambda>s. True) q) store)
      | Some p \<Rightarrow>
          (case rx p of
             None \<Rightarrow> Inl BadRegex
           | Some m \<Rightarrow> Inr (filter (matches m q) store)))"

text \<open>\<^verbatim>\<open>.sort({ createdAt: -1 })\<close>.\<close>

definition sort_createdAt_desc :: "task list \<Rightarrow> task list" where
  "sort_createdAt_desc ts = rev (sort_key createdAt ts)"

definition list_tasks ::
  "engine \<Rightarrow> oid \<Rightarrow> jstring option \<Rightarrow> jstring option \<Rightarrow> task list \<Rightarrow> failure + task list"
where
  "list_tasks rx u search st store =
     (case Task_find rx (build_query u search st) store of
        Inl e \<Rightarrow> Inl (Forwarded e)
      | Inr ts \<Rightarrow> Inr (sort_createdAt_desc ts))"

text \<open>
  \<^verbatim>\<open>taskAPI.getAll\<close> of the client: both parameters default to the empty string and are
  sent only when truthy.
\<close>

definition getAll_params :: "jstring \<Rightarrow> jstring \<Rightarrow> jstring option \<times> jstring option" where
  "getAll_params search st =
     (if search \<noteq> [] then Some search else None, if st \<noteq> [] then Some st else None)"

definition getAll ::
  "engine \<Rightarrow> oid \<Rightarrow> jstring \<Rightarrow> jstring \<Rightarrow> task list \<Rightarrow> failure + task list"
where
  "getAll rx u search st store =
     (case getAll_params search st of (p, q) \<Rightarrow> list_tasks rx u p q store)"

subsection \<open>Substrings, and an engine for concrete instances\<close>

text \<open>
  Letters without case: the ASCII capitals go to their small letters. Case folding beyond
  ASCII is not described; the concrete instances below hold ASCII text only.
\<close>

definition to_lower :: "nat \<Rightarrow> nat" where
  "to_lower c = (if 65 \<le> c \<and> c \<le> 90 then c + 32 else c)"

text \<open>
  The specification's words for the title filter, ``title contains searchTerm as a
  case-insensitive substring'': some position of the title starts a copy of the search
  text, letters compared without case.
\<close>

fun starts_with_ci :: "jstring \<Rightarrow> jstring \<Rightarrow> bool" where
  "starts_with_ci [] s = True"
| "starts_with_ci (a # as) [] = False"
| "starts_with_ci (a # as) (c # cs) = (to_lower a = to_lower c \<and> starts_with_ci as cs)"

definition contains_ci :: "jstring \<Rightarrow> jstring \<Rightarrow> bool" where
  "contains_ci p s = list_ex (\<lambda>i. starts_with_ci p (drop i s)) [0 ..< Suc (length s)]"

text \<open>
  The theorems about the listing hold for every engine. Their concrete instances need
  one, and \<open>example_engine\<close> is an engine that knows the simplest patterns only: in a
  pattern made of ordinary ASCII characters and dots, a dot stands for any character but a
  line feed and every other character for itself, letters without case, and the pattern
  may match anywhere in the title, which is how the real engine reads such a pattern
  against an ASCII title. Every other pattern it refuses: one with a character beyond
  ASCII, or with another metacharacter (\<^verbatim>\<open>\ ^ $ * + ? ( ) [ ] { } |\<close>). Of the latter the
  real engine refuses some, a lone \<^verbatim>\<open>(\<close> among them, and accepts others; no statement
  below uses the example engine on a pattern that the real engine reads otherwise.
\<close>

datatype atom = AnyChar | Lit nat

definition atom_of :: "nat \<Rightarrow> atom" where
  "atom_of c = (if c = 46 then AnyChar else Lit c)"

fun atom_ok :: "atom \<Rightarrow> nat \<Rightarrow> bool" where
  "atom_ok AnyChar c = (c \<noteq> 10)"
| "atom_ok (Lit a) c = (to_lower a = to_lower c)"

fun match_here :: "atom list \<Rightarrow> jstring \<Rightarrow> bool" where
  "match_here [] s = True"
| "match_here (a # as) [] = False"
| "match_here (a # as) (c # cs) = (atom_ok a c \<and> match_here as cs)"

fun match_anywhere :: "atom list \<Rightarrow> jstring \<Rightarrow> bool" where
  "match_anywhere as [] = match_here as []"
| "match_anywhere as (c # cs) = (match_here as (c # cs) \<or> match_anywhere as cs)"

text \<open>The metacharacters other than the dot, by code: \<^verbatim>\<open>$ ( ) * + ? [ \ ] ^ { | }\<close>.\<close>

definition other_metachars :: "nat list" where
  "other_metachars = [36, 40, 41, 42, 43, 63, 91, 92, 93, 94, 123, 124, 125]"

definition example_engine :: engine where
  "example_engine p =
     (if list_all (\<lambda>c. c < 128 \<and> c \<notin> set other_metachars) p
      then Some (match_anywhere (map atom_of p)) else None)"

text \<open>A search text of ASCII characters none of which is a metacharacter.\<close>

definition plain :: "jstring \<Rightarrow> bool" where
  "plain p = list_all (\<lambda>c. c < 128 \<and> c \<noteq> 46 \<and> c \<notin> set other_metachars) p"

subsection \<open>The \<^verbatim>\<open>protect\<close> middleware\<close>

record user =
  user_id :: oid
  name :: string
  email :: string
  password :: string

text \<open>What \<^verbatim>\<open>.select('-password')\<close> leaves of a user.\<close>

record identity =
  ident_id :: oid
  ident_name :: string
  ident_email :: string

definition select_minus_password :: "user \<Rightarrow> identity" where
  "select_minus_password u = \<lparr>ident_id = user_id u, ident_name = name u, ident_email = email u\<rparr>"

definition findById :: "oid \<Rightarrow> user list \<Rightarrow> user option" where
  "findById i users = find (\<lambda>u. user_id u = i) users"

text \<open>
  \<^verbatim>\<open>jwt.verify(token, secret)\<close> belongs to the \<^verbatim>\<open>jsonwebtoken\<close> library. Its contract:
  the compact text must parse (\<open>decode\<close>, a parameter, gives the parsed token or
  \<open>None\<close>), the signature must be the one the secret produces (a parsed token records
  the key that signed it), and the clock must be before the expiry time; otherwise it
  throws. On success it returns the payload.
\<close>

record jwt =
  jwt_userId :: oid
  jwt_iat :: nat
  jwt_exp :: nat
  jwt_key :: string

datatype jwt_error = JwtMalformed | InvalidSignature | TokenExpired

definition jwt_verify :: "(string \<Rightarrow> jwt option) \<Rightarrow> string \<Rightarrow> nat \<Rightarrow> string \<Rightarrow> jwt_error + jwt" where
  "jwt_verify decode secret now token =
     (case decode token of
        None \<Rightarrow> Inl JwtMalformed
      | Some j \<Rightarrow> if jwt_key j \<noteq> secret then Inl InvalidSignature
                  else if jwt_exp j \<le> now then Inl TokenExpired
                  else Inr j)"

definition protect ::
  "(string \<Rightarrow> jwt option) \<Rightarrow> string \<Rightarrow> nat \<Rightarrow> user list \<Rightarrow> string option \<Rightarrow> failure + identity"
where
  "protect decode secret now users authHeader =
     (case authHeader of
        None \<Rightarrow> Inl MissingTokenError
      | Some h \<Rightarrow>
          if h = [] \<or> take 7 h \<noteq> ''Bearer '' then Inl MissingTokenError
          else (let token = drop 7 h
                in if token = [] then Inl MissingTokenError
                   else case jwt_verify decode secret now token of
                          Inl e \<Rightarrow> Inl InvalidTokenError
                        | Inr decoded \<Rightarrow>
                            (case findById (jwt_userId decoded) users of
                               None \<Rightarrow> Inl UserNotFound
                             | Some u \<Rightarrow> Inr (select_minus_password u))))"

subsection \<open>Reachable stores\<close>

text \<open>The collection starts empty and changes only through the three writing routes.\<close>

inductive reachable :: "task list \<Rightarrow> bool" where
  init: "reachable []"
| by_create: "reachable s \<Longrightarrow> reachable (snd (create newId now u ti de st s))"
| by_update: "reachable s \<Longrightarrow> reachable (snd (update now u i ti de st s))"
| by_delete: "reachable s \<Longrightarrow> reachable (snd (delete u i s))"

definition distinct_ids :: "task list \<Rightarrow> bool" where
  "distinct_ids s = distinct (map tid s)"


subsection \<open>Auxiliary definitions\<close>

text \<open>
  The document \<^verbatim>\<open>PUT /:id\<close> holds in memory before \<^verbatim>\<open>task.save()\<close>: each field
  present in the body replaces the stored one (the title through the trimming setter).
\<close>

definition applied :: "jstring option \<Rightarrow> jstring option \<Rightarrow> jstring option \<Rightarrow> task \<Rightarrow> task" where
  "applied ti de st t0 =
     t0\<lparr>title := (case ti of None \<Rightarrow> title t0 | Some x \<Rightarrow> trim x),
        description := (case de of None \<Rightarrow> description t0 | Some d \<Rightarrow> d),
        status := (case st of None \<Rightarrow> status t0 | Some x \<Rightarrow> x)\<rparr>"

text \<open>A collection of two tasks with two owners, for concrete instances.\<close>

definition task_a :: task where
  "task_a = \<lparr>tid = 1, title = js ''Complete project'', description = [],
             status = js ''in-progress'', owner = 10, createdAt = 100, updatedAt = 100\<rparr>"

definition task_b :: task where
  "task_b = \<lparr>tid = 2, title = js ''abc'', description = js ''x'', status = js ''pending'',
             owner = 20, createdAt = 200, updatedAt = 200\<rparr>"

definition example_store :: "task list" where
  "example_store = [task_a, task_b]"

text \<open>
  The condition \<^verbatim>\<open>GET /\<close> puts on a task, read off the request: the caller owns it;
  a non-empty search text, compiled by the engine as a regular expression, matches its
  title; a status filter that is one of the three values equals its status.
\<close>

definition wanted :: "engine \<Rightarrow> oid \<Rightarrow> jstring option \<Rightarrow> jstring option \<Rightarrow> task \<Rightarrow> bool" where
  "wanted rx u search st t =
     (owner t = u
      \<and> (case search of
            None \<Rightarrow> True
          | Some p \<Rightarrow> p = [] \<or> (case rx p of None \<Rightarrow> False | Some m \<Rightarrow> m (title t)))
      \<and> (case st of None \<Rightarrow> True | Some s \<Rightarrow> s \<notin> set status_enum \<or> status t = s))"

text \<open>Whether the engine takes the search text of a request, when the route passes one.\<close>

definition accepts :: "engine \<Rightarrow> jstring option \<Rightarrow> bool" where
  "accepts rx search =
     (case search of None \<Rightarrow> True | Some p \<Rightarrow> p = [] \<or> rx p \<noteq> None)"

text \<open>
  A decoder that knows two tokens, both signed with the key \<^verbatim>\<open>k\<close> for user 10:
  \<^verbatim>\<open>good\<close> expires at 1000, \<^verbatim>\<open>stale\<close> at 5. One registered user.
\<close>

definition example_decode :: "string \<Rightarrow> jwt option" where
  "example_decode s =
     (if s = ''good'' then Some \<lparr>jwt_userId = 10, jwt_iat = 0, jwt_exp = 1000, jwt_key = ''k''\<rparr>
      else if s = ''stale'' then Some \<lparr>jwt_userId = 10, jwt_iat = 0, jwt_exp = 5, jwt_key = ''k''\<rparr>
      else None)"

definition example_users :: "user list" where
  "example_users = [\<lparr>user_id = 10, name = ''John Doe'', email = ''john@example.com'',
                     password = ''$2a$12$digest''\<rparr>]"

section \<open>Verified properties\<close>

subsection \<open>Lookup, update and delete: basic facts\<close>

lemma findOne_SomeD:
  "findOne i u s = Some t \<Longrightarrow> t \<in> set s \<and> tid t = i \<and> owner t = u"
  unfolding findOne_def by (induction s) (auto split: if_splits)

lemma findOne_None_iff:
  "findOne i u s = None \<longleftrightarrow> (\<forall>t\<in>set s. tid t \<noteq> i \<or> owner t \<noteq> u)"
  unfolding findOne_def by (induction s) auto

lemma distinct_ids_same:
  "distinct_ids s \<Longrightarrow> x \<in> set s \<Longrightarrow> y \<in> set s \<Longrightarrow> tid x = tid y \<Longrightarrow> x = y"
  unfolding distinct_ids_def by (simp add: distinct_map inj_on_def)

lemma findOne_owned:
  assumes "distinct_ids s" "x \<in> set s"
  shows "findOne (tid x) u s = (if owner x = u then Some x else None)"
proof (cases "findOne (tid x) u s")
  case None
  with assms(2) show ?thesis by (auto simp: findOne_None_iff)
next
  case (Some t)
  then have "t \<in> set s" "tid t = tid x" "owner t = u" by (auto dest: findOne_SomeD)
  with assms have "t = x" by (auto dest: distinct_ids_same)
  with Some \<open>owner t = u\<close> show ?thesis by simp
qed

lemma save_keeps_others:
  assumes "distinct_ids s" "t0 \<in> set s" "tid d = tid t0"
  shows "map (\<lambda>t. if tid t = tid d then d' else t) s = map (\<lambda>t. if t = t0 then d' else t) s"
  using assms by (auto dest: distinct_ids_same)

lemma Task_save_eq:
  "Task_save now orig d s =
     (case validate d of
        Some e \<Rightarrow> Inl e
      | None \<Rightarrow>
          if d = orig then Inr (d, s)
          else Inr (d\<lparr>updatedAt := now\<rparr>,
                    map (\<lambda>t. if tid t = tid d then d\<lparr>updatedAt := now\<rparr> else t) s))"
  by (simp add: Task_save_def Let_def split: option.splits)

lemma update_found:
  assumes "findOne i u s = Some t0"
  shows "update now u i ti de st s =
     (if (case st of Some x \<Rightarrow> x \<in> set status_enum | None \<Rightarrow> True) then
          (case Task_save now t0 (applied ti de st t0) s of
            Inl e \<Rightarrow> (Inl (Forwarded e), s) | Inr (t, s') \<Rightarrow> (Inr t, s'))
      else (Inl InvalidStatusError, s))"
  using assms unfolding update_def applied_def set_title_def
  by (cases ti; cases de; cases st) (simp_all add: Let_def)

lemma update_missing:
  "findOne i u s = None \<Longrightarrow> update now u i ti de st s = (Inl NotFoundError, s)"
  unfolding update_def by simp

lemma update_Inr:
  assumes "update now u i ti de st s = (Inr t', s')"
  obtains t0 where "findOne i u s = Some t0"
    and "validate (applied ti de st t0) = None"
    and "t' = (if applied ti de st t0 = t0 then t0
               else (applied ti de st t0)\<lparr>updatedAt := now\<rparr>)"
    and "s' = (if applied ti de st t0 = t0 then s
               else map (\<lambda>t. if tid t = i then t' else t) s)"
proof (cases "findOne i u s")
  case None
  with assms show ?thesis by (simp add: update_missing)
next
  case (Some t0)
  have i: "tid (applied ti de st t0) = i"
    using findOne_SomeD[OF Some] by (simp add: applied_def)
  from assms Some have v: "validate (applied ti de st t0) = None"
    by (auto simp: update_found Task_save_eq split: if_splits option.splits)
  show ?thesis
  proof (cases "applied ti de st t0 = t0")
    case True
    with assms Some v have "t' = t0 \<and> s' = s"
      by (auto simp: update_found Task_save_eq split: if_splits option.splits)
    with Some v True that show ?thesis by simp
  next
    case False
    with assms Some v have "t' = (applied ti de st t0)\<lparr>updatedAt := now\<rparr>
        \<and> s' = map (\<lambda>t. if tid t = tid (applied ti de st t0) then t' else t) s"
      by (auto simp: update_found Task_save_eq split: if_splits option.splits)
    then have "t' = (applied ti de st t0)\<lparr>updatedAt := now\<rparr>
        \<and> s' = map (\<lambda>t. if tid t = i then t' else t) s"
      unfolding i .
    with Some v False that show ?thesis by simp
  qed
qed

lemma update_store:
  "snd (update now u i ti de st s) = s \<or>
   (\<exists>t0 t'. findOne i u s = Some t0 \<and> t' = (applied ti de st t0)\<lparr>updatedAt := now\<rparr>
      \<and> validate (applied ti de st t0) = None
      \<and> snd (update now u i ti de st s) = map (\<lambda>t. if tid t = i then t' else t) s)"
proof (cases "update now u i ti de st s")
  case (Pair r s')
  show ?thesis
  proof (cases r)
    case (Inl e)
    with Pair have "s' = s"
      by (cases "findOne i u s")
         (auto simp: update_missing update_found Task_save_eq split: if_splits option.splits)
    with Pair show ?thesis by simp
  next
    case (Inr t')
    with Pair obtain t0 where "findOne i u s = Some t0"
      and "validate (applied ti de st t0) = None"
      and "t' = (if applied ti de st t0 = t0 then t0
               else (applied ti de st t0)\<lparr>updatedAt := now\<rparr>)"
      and "s' = (if applied ti de st t0 = t0 then s
               else map (\<lambda>t. if tid t = i then t' else t) s)"
      by (auto elim!: update_Inr)
    with Pair show ?thesis by (cases "applied ti de st t0 = t0") auto
  qed
qed

lemma applied_same_iff:
  "applied ti de st t0 = t0 \<longleftrightarrow>
     title (applied ti de st t0) = title t0
     \<and> description (applied ti de st t0) = description t0
     \<and> status (applied ti de st t0) = status t0"
  by (cases t0) (auto simp: applied_def)

lemma delete_eq:
  "delete u i s = (case findOne i u s of None \<Rightarrow> (Inl NotFoundError, s)
                   | Some t \<Rightarrow> (Inr (), remove1 t s))"
  by (simp add: delete_def findOneAndDelete_def split: option.splits)

lemma create_eq:
  "create newId now u ti de st s =
     (case ti of None \<Rightarrow> (Inl ValidationError, s)
      | Some x \<Rightarrow>
         if x = [] then (Inl ValidationError, s)
         else if trim x = [] then (Inl (Forwarded (ValidatorError ''title'')), s)
         else if or_default st (js ''pending'') \<notin> set status_enum
           then (Inl (Forwarded (ValidatorError ''status'')), s)
         else if newId \<in> tid ` set s then (Inl (Forwarded DuplicateKey), s)
         else (Inr \<lparr>tid = newId, title = trim x, description = or_default de [],
                     status = or_default st (js ''pending''), owner = u,
                     createdAt = now, updatedAt = now\<rparr>,
               s @ [\<lparr>tid = newId, title = trim x, description = or_default de [],
                     status = or_default st (js ''pending''), owner = u,
                     createdAt = now, updatedAt = now\<rparr>]))"
  by (cases ti) (simp_all add: create_def Task_create_def set_title_def validate_def Let_def)

lemma distinct_ids_create: "distinct_ids s \<Longrightarrow> distinct_ids (snd (create newId now u ti de st s))"
  by (auto simp: create_eq distinct_ids_def Let_def split: option.splits)

lemma distinct_ids_delete: "distinct_ids s \<Longrightarrow> distinct_ids (snd (delete u i s))"
  by (auto simp: delete_eq distinct_ids_def distinct_map distinct_remove1
           split: option.splits intro: inj_on_subset dest: notin_set_remove1)

lemma map_tid_replace:
  "tid t' = i \<Longrightarrow> map tid (map (\<lambda>t. if tid t = i then t' else t) s) = map tid s"
  by (induction s) auto

lemma distinct_ids_update:
  assumes "distinct_ids s"
  shows "distinct_ids (snd (update now u i ti de st s))"
proof -
  from update_store[of now u i ti de st s]
  consider "snd (update now u i ti de st s) = s"
    | t0 t' where "findOne i u s = Some t0" "t' = (applied ti de st t0)\<lparr>updatedAt := now\<rparr>"
        "snd (update now u i ti de st s) = map (\<lambda>t. if tid t = i then t' else t) s"
    by blast
  then show ?thesis
  proof cases
    case 1
    with assms show ?thesis by simp
  next
    case 2
    from 2(1) have "tid t0 = i" by (auto dest: findOne_SomeD)
    with 2(2) have "tid t' = i" by (simp add: applied_def)
    then have "map tid (map (\<lambda>t. if tid t = i then t' else t) s) = map tid s"
      by (rule map_tid_replace)
    with assms 2(3) show ?thesis unfolding distinct_ids_def by (simp del: map_map)
  qed
qed

lemma reachable_distinct_ids: "reachable s \<Longrightarrow> distinct_ids s"
  by (induction rule: reachable.induct)
     (simp_all add: distinct_ids_def[of "[]"] distinct_ids_create distinct_ids_update distinct_ids_delete)










subsection \<open>The claims\<close>

lemmas ex_defs = example_store_def task_a_def task_b_def js_def

lemma list_tasks_owner:
  "list_tasks rx u search st s = Inr ts \<Longrightarrow> t \<in> set ts \<Longrightarrow> owner t = u"
  by (auto simp: list_tasks_def sort_createdAt_desc_def Task_find_def matches_def build_query_def
      split: option.splits sum.splits if_splits)

text \<open>
  Claim C1. In a collection with unique identifiers, a task \<open>x\<close> owned by \<open>a\<close> is
  returned to \<open>a\<close> by \<open>getOne\<close>; for any other identity \<open>b\<close>, \<open>getOne\<close>,
  \<open>update\<close> and \<open>delete\<close> on its identifier answer \<open>NotFoundError\<close> and leave the
  collection as it was; and whatever \<open>b\<close> passes to any route, \<open>x\<close> is never
  returned, listed, changed or removed.
\<close>

theorem ownership_isolation:
  assumes "distinct_ids store" and "x \<in> set store" and "owner x = a" and "b \<noteq> a"
  shows "getOne a (tid x) store = Inr x
       \<and> getOne b (tid x) store = Inl NotFoundError
       \<and> update now b (tid x) ti de st store = (Inl NotFoundError, store)
       \<and> delete b (tid x) store = (Inl NotFoundError, store)
       \<and> (\<forall>i. getOne b i store \<noteq> Inr x)
       \<and> (\<forall>i. x \<in> set (snd (update now b i ti de st store)))
       \<and> (\<forall>i. x \<in> set (snd (delete b i store)))
       \<and> x \<in> set (snd (create newId now b ti de st store))
       \<and> (\<forall>ts. list_tasks rx b search st store = Inr ts \<longrightarrow> x \<notin> set ts)"
proof -
  have own: "findOne (tid x) a store = Some x" and other: "findOne (tid x) b store = None"
    using assms by (simp_all add: findOne_owned)
  have 1: "getOne a (tid x) store = Inr x" using own by (simp add: getOne_def)
  have 2: "getOne b (tid x) store = Inl NotFoundError" using other by (simp add: getOne_def)
  have 3: "update now b (tid x) ti de st store = (Inl NotFoundError, store)"
    using other by (rule update_missing)
  have 4: "delete b (tid x) store = (Inl NotFoundError, store)"
    using other by (simp add: delete_eq)
  have 5: "getOne b i store \<noteq> Inr x" for i
    using assms(3,4) by (auto simp: getOne_def split: option.splits dest: findOne_SomeD)
  have 6: "x \<in> set (snd (update now b i ti de st store))" for i
  proof -
    from update_store[of now b i ti de st store]
    consider "snd (update now b i ti de st store) = store"
      | t0 t' where "findOne i b store = Some t0"
          "snd (update now b i ti de st store) = map (\<lambda>t. if tid t = i then t' else t) store"
      by blast
    then show ?thesis
    proof cases
      case 1
      with assms(2) show ?thesis by simp
    next
      case 2
      from 2(1) have t0: "t0 \<in> set store" "tid t0 = i" "owner t0 = b"
        by (auto dest: findOne_SomeD)
      with assms have "tid x \<noteq> i" by (auto dest: distinct_ids_same)
      with assms(2) 2(2) show ?thesis by (force simp: image_iff)
    qed
  qed
  have 7: "x \<in> set (snd (delete b i store))" for i
  proof (cases "findOne i b store")
    case None
    with assms(2) show ?thesis by (simp add: delete_eq)
  next
    case (Some t0)
    then have "owner t0 = b" by (auto dest: findOne_SomeD)
    with assms(3,4) have "x \<noteq> t0" by auto
    with assms(2) Some show ?thesis by (simp add: delete_eq)
  qed
  have 8: "x \<notin> set ts" if "list_tasks rx b search st store = Inr ts" for ts
    using assms(3,4) list_tasks_owner[OF that] by auto
  have 9: "x \<in> set (snd (create newId now b ti de st store))"
    using assms(2) by (cases ti) (simp_all add: create_eq)
  from 1 2 3 4 5 6 7 8 9 show ?thesis by blast
qed

theorem ownership_isolation_witness:
  "distinct_ids example_store \<and> task_a \<in> set example_store \<and> owner task_a = 10 \<and> (20::nat) \<noteq> 10
   \<and> getOne 10 1 example_store = Inr task_a
   \<and> getOne 20 1 example_store = Inl NotFoundError
   \<and> update 300 20 1 (Some (js ''mine'')) None None example_store = (Inl NotFoundError, example_store)
   \<and> delete 20 1 example_store = (Inl NotFoundError, example_store)
   \<and> task_a \<in> set (snd (delete 20 2 example_store))
   \<and> list_tasks example_engine 20 None None example_store = Inr [task_b]
   \<and> task_a \<notin> set [task_b]"
proof -
  have h: "distinct_ids example_store" "task_a \<in> set example_store" "owner task_a = 10"
    "(20::nat) \<noteq> 10"
    by (simp_all add: ex_defs distinct_ids_def)
  have t: "tid task_a = 1" by (simp add: task_a_def)
  have l: "list_tasks example_engine 20 None None example_store = Inr [task_b]"
    by (simp add: list_tasks_def build_query_def Task_find_def matches_def
          sort_createdAt_desc_def ex_defs)
  from ownership_isolation[OF h, where now = 300 and ti = "Some (js ''mine'')" and de = None
      and st = None and rx = example_engine and search = None] h l
  show ?thesis unfolding t by blast
qed

text \<open>
  Claim C3. An update whose status is outside the enum leaves the collection unchanged
  in every field of every task, whatever title and description came with it; when the
  task exists for the caller the answer is \<open>InvalidStatusError\<close>.
\<close>

theorem update_rejects_bad_status_whole:
  assumes "s \<notin> set status_enum"
  shows "snd (update now u i ti de (Some s) store) = store
       \<and> (\<forall>t. getOne u i store = Inr t \<longrightarrow>
             update now u i ti de (Some s) store = (Inl InvalidStatusError, store))"
proof (cases "findOne i u store")
  case None
  then show ?thesis by (simp add: update_missing getOne_def)
next
  case (Some t0)
  with assms show ?thesis by (simp add: update_found)
qed

theorem update_rejects_bad_status_whole_witness:
  "js ''archived'' \<notin> set status_enum
   \<and> getOne 10 1 example_store = Inr task_a
   \<and> update 300 10 1 (Some (js ''New title'')) (Some (js ''New text'')) (Some (js ''archived'')) example_store
       = (Inl InvalidStatusError, example_store)"
proof -
  have h: "js ''archived'' \<notin> set status_enum" by (simp add: status_enum_def js_def)
  have g: "getOne 10 1 example_store = Inr task_a"
    by (simp add: getOne_def findOne_def ex_defs)
  from update_rejects_bad_status_whole[OF h, of 300 10 1 "Some (js ''New title'')" "Some (js ''New text'')" example_store]
    h g show ?thesis by blast
qed

text \<open>
  Against claim C8 as stated: an update with an empty body, and one that repeats the stored
  title, both succeed, and neither refreshes the updated timestamp: the document has no
  changed field and \<^verbatim>\<open>task.save()\<close> writes nothing.
\<close>

theorem update_frame_counterexample:
  "update 300 10 1 None None None example_store = (Inr task_a, example_store)
   \<and> update 300 10 1 (Some (js ''Complete project'')) None None example_store
       = (Inr task_a, example_store)
   \<and> updatedAt task_a = 100
   \<and> updatedAt task_a \<noteq> 300"
proof -
  have f: "findOne 1 10 example_store = Some task_a" by (simp add: findOne_def ex_defs)
  have t: "trim (js ''Complete project'') = js ''Complete project''"
    by (simp add: trim_def is_space_def js_def)
  have a: "applied None None None task_a = task_a"
    "applied (Some (js ''Complete project'')) None None task_a = task_a"
    by (simp_all add: applied_def t) (simp_all add: task_a_def)
  have v: "validate task_a = None" by (simp add: validate_def status_enum_def ex_defs)
  show ?thesis
    unfolding update_found[OF f] by (simp add: Task_save_eq a v) (simp add: task_a_def)
qed

text \<open>
  Claim C8, amended. A successful update returns the task the caller's lookup finds with
  exactly the fields present in the body replaced (the title through the trimming
  setter): an absent title, description or status keeps its stored value, identifier,
  owner and creation time are kept, and no other task of the collection changes. The
  updated time is the time of the call when the title, the description or the status has
  changed, and stays as it was when none has.
\<close>

theorem update_frame:
  assumes "distinct_ids store" and "update now u i ti de st store = (Inr t', store')"
  shows "\<exists>t0. getOne u i store = Inr t0
          \<and> tid t' = tid t0 \<and> owner t' = owner t0 \<and> createdAt t' = createdAt t0
          \<and> title t' = (case ti of None \<Rightarrow> title t0 | Some x \<Rightarrow> trim x)
          \<and> description t' = (case de of None \<Rightarrow> description t0 | Some d \<Rightarrow> d)
          \<and> status t' = (case st of None \<Rightarrow> status t0 | Some s \<Rightarrow> s)
          \<and> updatedAt t' =
               (if title t' = title t0 \<and> description t' = description t0 \<and> status t' = status t0
                then updatedAt t0 else now)
          \<and> store' = map (\<lambda>t. if t = t0 then t' else t) store"
proof -
  from assms(2) obtain t0 where f: "findOne i u store = Some t0"
    and t': "t' = (if applied ti de st t0 = t0 then t0
               else (applied ti de st t0)\<lparr>updatedAt := now\<rparr>)"
    and s': "store' = (if applied ti de st t0 = t0 then store
               else map (\<lambda>t. if tid t = i then t' else t) store)"
    by (rule update_Inr)
  from f have t0: "t0 \<in> set store" "tid t0 = i" by (auto dest: findOne_SomeD)
  have g: "getOne u i store = Inr t0" using f by (simp add: getOne_def)
  have eq: "t' = applied ti de st t0 \<or> t' = (applied ti de st t0)\<lparr>updatedAt := now\<rparr>"
    using t' by (cases "applied ti de st t0 = t0") simp_all
  have fields: "title t' = title (applied ti de st t0)"
    "description t' = description (applied ti de st t0)"
    "status t' = status (applied ti de st t0)"
    "tid t' = tid t0" "owner t' = owner t0" "createdAt t' = createdAt t0"
  proof -
    from eq show "title t' = title (applied ti de st t0)"
      "description t' = description (applied ti de st t0)"
      "status t' = status (applied ti de st t0)"
      by auto
    from eq show "tid t' = tid t0" "owner t' = owner t0" "createdAt t' = createdAt t0"
      by (auto simp: applied_def)
  qed
  have same: "applied ti de st t0 = t0 \<longleftrightarrow>
      title t' = title t0 \<and> description t' = description t0 \<and> status t' = status t0"
    unfolding fields(1-3) by (rule applied_same_iff)
  have upd: "updatedAt t' =
      (if title t' = title t0 \<and> description t' = description t0 \<and> status t' = status t0
       then updatedAt t0 else now)"
    unfolding same[symmetric] using t' by simp
  have st: "store' = map (\<lambda>t. if t = t0 then t' else t) store"
  proof (cases "applied ti de st t0 = t0")
    case True
    with t' s' have "t' = t0" "store' = store" by simp_all
    then show ?thesis by (simp add: map_idI)
  next
    case False
    have "map (\<lambda>t. if tid t = i then t' else t) store = map (\<lambda>t. if t = t0 then t' else t) store"
      using save_keeps_others[OF assms(1) t0(1), of t0 t'] t0(2) by simp
    with s' False show ?thesis by simp
  qed
  have vals: "title t' = (case ti of None \<Rightarrow> title t0 | Some x \<Rightarrow> trim x)"
    "description t' = (case de of None \<Rightarrow> description t0 | Some d \<Rightarrow> d)"
    "status t' = (case st of None \<Rightarrow> status t0 | Some s \<Rightarrow> s)"
    unfolding fields(1-3) by (simp_all add: applied_def)
  from g fields(4-6) vals upd st show ?thesis by blast
qed

theorem update_frame_witness:
  "distinct_ids example_store
   \<and> update 300 10 1 None (Some (js ''notes'')) None example_store
       = (Inr (task_a\<lparr>description := js ''notes'', updatedAt := 300\<rparr>),
          [task_a\<lparr>description := js ''notes'', updatedAt := 300\<rparr>, task_b])
   \<and> (\<exists>t0. getOne 10 1 example_store = Inr t0
          \<and> title (task_a\<lparr>description := js ''notes'', updatedAt := 300\<rparr>) = title t0
          \<and> status (task_a\<lparr>description := js ''notes'', updatedAt := 300\<rparr>) = status t0
          \<and> createdAt (task_a\<lparr>description := js ''notes'', updatedAt := 300\<rparr>) = createdAt t0)"
proof -
  have h1: "distinct_ids example_store" by (simp add: ex_defs distinct_ids_def)
  have f: "findOne 1 10 example_store = Some task_a" by (simp add: findOne_def ex_defs)
  have h2: "update 300 10 1 None (Some (js ''notes'')) None example_store
       = (Inr (task_a\<lparr>description := js ''notes'', updatedAt := 300\<rparr>),
          [task_a\<lparr>description := js ''notes'', updatedAt := 300\<rparr>, task_b])"
    unfolding update_found[OF f]
    by (simp add: Task_save_eq applied_def validate_def status_enum_def ex_defs)
  from update_frame[OF h1 h2] h1 h2 show ?thesis by auto
qed

text \<open>
  Claim C9. In a collection with unique identifiers, once a delete has succeeded the same
  delete answers \<open>NotFoundError\<close> and leaves the collection as it is; for an identifier
  no task carries, the first and the second call both answer \<open>NotFoundError\<close> and
  change nothing.
\<close>

theorem delete_twice:
  assumes "distinct_ids store"
  shows "(\<forall>s1. delete u i store = (Inr (), s1) \<longrightarrow> delete u i s1 = (Inl NotFoundError, s1))
       \<and> (i \<notin> tid ` set store \<longrightarrow>
            delete u i store = (Inl NotFoundError, store)
            \<and> delete u i (snd (delete u i store)) = (Inl NotFoundError, store))"
proof (intro conjI allI impI)
  fix s1 assume d: "delete u i store = (Inr (), s1)"
  then obtain t where f: "findOne i u store = Some t" and s1: "s1 = remove1 t store"
    by (auto simp: delete_eq split: option.splits)
  from f have t: "t \<in> set store" "tid t = i" by (auto dest: findOne_SomeD)
  have "tid y \<noteq> i" if "y \<in> set s1" for y
  proof
    assume "tid y = i"
    from that s1 have y: "y \<in> set store" using set_remove1_subset by fastforce
    with assms t \<open>tid y = i\<close> have "y = t" by (auto dest: distinct_ids_same)
    moreover from assms have "distinct store" by (simp add: distinct_ids_def distinct_map)
    ultimately show False using that s1 by simp
  qed
  then have "findOne i u s1 = None" by (auto simp: findOne_None_iff)
  then show "delete u i s1 = (Inl NotFoundError, s1)" by (simp add: delete_eq)
next
  assume "i \<notin> tid ` set store"
  then have n: "findOne i u store = None" by (auto simp: findOne_None_iff)
  then show "delete u i store = (Inl NotFoundError, store)" by (simp add: delete_eq)
  with n show "delete u i (snd (delete u i store)) = (Inl NotFoundError, store)" by simp
qed

theorem delete_twice_witness:
  "distinct_ids example_store
   \<and> delete 10 1 example_store = (Inr (), [task_b])
   \<and> delete 10 1 [task_b] = (Inl NotFoundError, [task_b])
   \<and> 7 \<notin> tid ` set example_store
   \<and> delete 10 7 example_store = (Inl NotFoundError, example_store)
   \<and> delete 10 7 (snd (delete 10 7 example_store)) = (Inl NotFoundError, example_store)"
proof -
  have h: "distinct_ids example_store" by (simp add: ex_defs distinct_ids_def)
  have d: "delete 10 1 example_store = (Inr (), [task_b])"
    by (simp add: delete_eq findOne_def ex_defs)
  have n: "7 \<notin> tid ` set example_store" by (simp add: ex_defs)
  from delete_twice[OF h, where u = 10 and i = 1] d have "delete 10 1 [task_b] = (Inl NotFoundError, [task_b])"
    by blast
  moreover from delete_twice[OF h, where u = 10 and i = 7] n
  have "delete 10 7 example_store = (Inl NotFoundError, example_store)
      \<and> delete 10 7 (snd (delete 10 7 example_store)) = (Inl NotFoundError, example_store)"
    by blast
  ultimately show ?thesis using h d n by blast
qed

text \<open>
  Against claim C2 as stated: an empty-string status is supplied and is none of the three
  values, yet \<^verbatim>\<open>status || 'pending'\<close> replaces it and the task is created; and for
  \<^verbatim>\<open>archived\<close> the route has no answer of its own: the schema's validator throws and
  the route forwards the exception.
\<close>

theorem create_bad_status_counterexample:
  "[] \<notin> set status_enum
   \<and> create 3 300 10 (Some (js ''Buy milk'')) None (Some []) []
       = (Inr \<lparr>tid = 3, title = js ''Buy milk'', description = [], status = js ''pending'',
               owner = 10, createdAt = 300, updatedAt = 300\<rparr>,
          [\<lparr>tid = 3, title = js ''Buy milk'', description = [], status = js ''pending'',
               owner = 10, createdAt = 300, updatedAt = 300\<rparr>])
   \<and> js ''archived'' \<notin> set status_enum
   \<and> create 3 300 10 (Some (js ''Buy milk'')) None (Some (js ''archived'')) []
       = (Inl (Forwarded (ValidatorError ''status'')), [])
   \<and> Forwarded (ValidatorError ''status'') \<noteq> InvalidStatusError"
  by (simp add: create_eq status_enum_def js_def trim_def is_space_def InvalidStatusError_def)

text \<open>
  Claim C2, amended. A create whose status is a non-empty string outside the enum fails
  and stores nothing. An empty-string status is treated exactly as an absent one.
\<close>

theorem create_bad_status_rejected:
  assumes "s \<noteq> []" and "s \<notin> set status_enum"
  shows "isl (fst (create newId now u ti de (Some s) store))
       \<and> snd (create newId now u ti de (Some s) store) = store
       \<and> create newId now u ti de (Some []) store = create newId now u ti de None store"
  using assms by (cases ti) (simp_all add: create_eq)

theorem create_bad_status_rejected_witness:
  "js ''archived'' \<noteq> [] \<and> js ''archived'' \<notin> set status_enum
   \<and> isl (fst (create 3 300 10 (Some (js ''Buy milk'')) None (Some (js ''archived'')) example_store))
   \<and> snd (create 3 300 10 (Some (js ''Buy milk'')) None (Some (js ''archived'')) example_store)
       = example_store
   \<and> create 3 300 10 (Some (js ''Buy milk'')) None (Some []) example_store
       = create 3 300 10 (Some (js ''Buy milk'')) None None example_store"
proof -
  have h: "js ''archived'' \<noteq> []" "js ''archived'' \<notin> set status_enum" by (simp_all add: status_enum_def js_def)
  from create_bad_status_rejected[OF h, where newId = 3 and now = 300 and u = 10
      and ti = "Some (js ''Buy milk'')" and de = None and store = example_store] h
  show ?thesis by simp
qed



text \<open>
  Claim C10. An empty-string search text or status filter gives the listing that the
  absent parameter gives, on the server and through the client's \<^verbatim>\<open>getAll\<close>.
\<close>

theorem list_empty_string_is_absent:
  "list_tasks rx u (Some []) st store = list_tasks rx u None st store
   \<and> list_tasks rx u search (Some []) store = list_tasks rx u search None store
   \<and> list_tasks rx u (Some []) (Some []) store = list_tasks rx u None None store
   \<and> getAll rx u [] [] store = list_tasks rx u None None store
   \<and> getAll rx u [] st' store = list_tasks rx u None (if st' = [] then None else Some st') store
   \<and> getAll rx u search' [] store = list_tasks rx u (if search' = [] then None else Some search') None store"
  by (simp add: list_tasks_def build_query_def getAll_def getAll_params_def)

theorem list_empty_string_is_absent_witness:
  "list_tasks example_engine 10 (Some []) (Some []) example_store = Inr [task_a]
   \<and> list_tasks example_engine 10 None None example_store = Inr [task_a]"
proof -
  have "list_tasks example_engine 10 None None example_store = Inr [task_a]"
    by (simp add: list_tasks_def build_query_def Task_find_def matches_def sort_createdAt_desc_def ex_defs)
  with list_empty_string_is_absent[of example_engine 10 None example_store None]
  show ?thesis by simp
qed

text \<open>
  Claim C4. For a header carrying a non-empty bearer token, \<open>protect\<close> answers
  \<open>InvalidTokenError\<close> whenever the token does not parse, or is signed with another
  key, or is expired (whatever its signature), and this for every user collection; any
  other outcome means the token passed all three checks and the outcome is that of the
  user lookup.
\<close>

theorem protect_rejects_bad_token:
  assumes "h = ''Bearer '' @ tok" and "tok \<noteq> []"
  shows "(decode tok = None \<or> (\<exists>j. decode tok = Some j \<and> (jwt_key j \<noteq> secret \<or> jwt_exp j \<le> now))
            \<longrightarrow> protect decode secret now users (Some h) = Inl InvalidTokenError)
       \<and> (protect decode secret now users (Some h) \<noteq> Inl InvalidTokenError
            \<longrightarrow> (\<exists>j. decode tok = Some j \<and> jwt_key j = secret \<and> now < jwt_exp j
                  \<and> protect decode secret now users (Some h) =
                      (case findById (jwt_userId j) users of
                         None \<Rightarrow> Inl UserNotFound
                       | Some u \<Rightarrow> Inr (select_minus_password u))))"
  using assms
  by (cases "decode tok") (auto simp: protect_def jwt_verify_def Let_def)

theorem protect_rejects_bad_token_witness:
  "''Bearer stale'' = ''Bearer '' @ ''stale'' \<and> ''stale'' \<noteq> []
   \<and> example_decode ''stale'' = Some \<lparr>jwt_userId = 10, jwt_iat = 0, jwt_exp = 5, jwt_key = ''k''\<rparr>
   \<and> protect example_decode ''k'' 50 example_users (Some ''Bearer stale'') = Inl InvalidTokenError
   \<and> example_decode ''junk'' = None
   \<and> protect example_decode ''k'' 50 example_users (Some ''Bearer junk'') = Inl InvalidTokenError
   \<and> protect example_decode ''other key'' 50 example_users (Some ''Bearer good'') = Inl InvalidTokenError"
proof -
  have d: "example_decode ''stale'' = Some \<lparr>jwt_userId = 10, jwt_iat = 0, jwt_exp = 5, jwt_key = ''k''\<rparr>"
    "example_decode ''junk'' = None"
    "example_decode ''good'' = Some \<lparr>jwt_userId = 10, jwt_iat = 0, jwt_exp = 1000, jwt_key = ''k''\<rparr>"
    by (simp_all add: example_decode_def)
  have 1: "protect example_decode ''k'' 50 example_users (Some ''Bearer stale'') = Inl InvalidTokenError"
    using protect_rejects_bad_token[of "''Bearer stale''" "''stale''" example_decode "''k''" 50 example_users] d
    by simp
  have 2: "protect example_decode ''k'' 50 example_users (Some ''Bearer junk'') = Inl InvalidTokenError"
    using protect_rejects_bad_token[of "''Bearer junk''" "''junk''" example_decode "''k''" 50 example_users] d
    by simp
  have 3: "protect example_decode ''other key'' 50 example_users (Some ''Bearer good'') = Inl InvalidTokenError"
    using protect_rejects_bad_token[of "''Bearer good''" "''good''" example_decode "''other key''" 50 example_users] d
    by simp
  from 1 2 3 d show ?thesis by simp
qed

text \<open>
  Against claim C5 as stated: for a valid token of a user that no longer exists the
  answer is not the one a badly signed token gets.
\<close>

theorem protect_unknown_user_counterexample:
  "example_decode ''good'' = Some \<lparr>jwt_userId = 10, jwt_iat = 0, jwt_exp = 1000, jwt_key = ''k''\<rparr>
   \<and> jwt_verify example_decode ''k'' 50 ''good''
        = Inr \<lparr>jwt_userId = 10, jwt_iat = 0, jwt_exp = 1000, jwt_key = ''k''\<rparr>
   \<and> findById 10 [] = None
   \<and> protect example_decode ''k'' 50 [] (Some ''Bearer good'') = Inl UserNotFound
   \<and> protect example_decode ''other key'' 50 [] (Some ''Bearer good'') = Inl InvalidTokenError
   \<and> protect example_decode ''k'' 50 [] (Some ''Bearer good'')
       \<noteq> protect example_decode ''other key'' 50 [] (Some ''Bearer good'')"
  by (simp add: protect_def jwt_verify_def example_decode_def findById_def UserNotFound_def
        InvalidTokenError_def)

text \<open>
  Claim C5, amended. A parsed, correctly signed, unexpired token whose user is not in the
  collection is answered with status 401, as a bad signature is, but with the message
  \<^verbatim>\<open>User not found\<close> instead of \<^verbatim>\<open>Not authorized, invalid token\<close>: the two answers
  differ in their message.
\<close>

theorem protect_unknown_user:
  assumes "h = ''Bearer '' @ tok" and "tok \<noteq> []"
    and "decode tok = Some j" and "jwt_key j = secret" and "now < jwt_exp j"
    and "findById (jwt_userId j) users = None"
  shows "protect decode secret now users (Some h) = Inl UserNotFound
       \<and> status_code UserNotFound = Some 401
       \<and> status_code UserNotFound = status_code InvalidTokenError
       \<and> message UserNotFound = Some ''User not found''
       \<and> message InvalidTokenError = Some ''Not authorized, invalid token''
       \<and> message UserNotFound \<noteq> message InvalidTokenError"
  using assms
  by (simp add: protect_def jwt_verify_def UserNotFound_def InvalidTokenError_def)

theorem protect_unknown_user_witness:
  "''Bearer good'' = ''Bearer '' @ ''good'' \<and> ''good'' \<noteq> []
   \<and> example_decode ''good'' = Some \<lparr>jwt_userId = 10, jwt_iat = 0, jwt_exp = 1000, jwt_key = ''k''\<rparr>
   \<and> findById 10 [] = None
   \<and> protect example_decode ''k'' 50 [] (Some ''Bearer good'') = Inl UserNotFound"
proof -
  have d: "example_decode ''good'' = Some \<lparr>jwt_userId = 10, jwt_iat = 0, jwt_exp = 1000, jwt_key = ''k''\<rparr>"
    by (simp add: example_decode_def)
  have f: "findById 10 [] = None" by (simp add: findById_def)
  from protect_unknown_user[of "''Bearer good''" "''good''" example_decode _ "''k''" 50 "[]", OF _ _ d] f d
  show ?thesis by simp
qed

subsection \<open>Listing\<close>

lemma matches_build_query:
  assumes "build_query u search st = q"
  shows "q_title q = None \<Longrightarrow> matches (\<lambda>s. True) q = wanted rx u search st"
    and "q_title q = Some p \<Longrightarrow> rx p = Some m \<Longrightarrow> matches m q = wanted rx u search st"
proof -
  show "matches (\<lambda>s. True) q = wanted rx u search st" if "q_title q = None"
  proof
    fix t
    show "matches (\<lambda>s. True) q t = wanted rx u search st t"
      using that assms[symmetric]
      by (cases search; cases st)
         (auto simp: matches_def build_query_def wanted_def status_enum_def js_def
            split: if_splits)
  qed
  show "matches m q = wanted rx u search st" if "q_title q = Some p" "rx p = Some m"
  proof
    fix t
    show "matches m q t = wanted rx u search st t"
      using that assms[symmetric]
      by (cases search; cases st)
         (auto simp: matches_def build_query_def wanted_def status_enum_def js_def
            split: if_splits)
  qed
qed

lemma mset_sort_createdAt_desc: "mset (sort_createdAt_desc ts) = mset ts"
  by (simp add: sort_createdAt_desc_def)

lemma sorted_sort_createdAt_desc:
  "sorted_wrt (\<lambda>a b. createdAt b \<le> createdAt a) (sort_createdAt_desc ts)"
proof -
  have "sorted (map createdAt (sort_key createdAt ts))" by (rule sorted_sort_key)
  then have "sorted_wrt (\<lambda>a b. createdAt a \<le> createdAt b) (sort_key createdAt ts)"
    by (simp add: sorted_wrt_map)
  then show ?thesis by (simp add: sort_createdAt_desc_def sorted_wrt_rev)
qed

lemma list_tasks_accepted:
  assumes "accepts rx search"
  shows "list_tasks rx u search st store
           = Inr (sort_createdAt_desc (filter (wanted rx u search st) store))"
proof (cases "q_title (build_query u search st)")
  case None
  then show ?thesis
    by (simp add: list_tasks_def Task_find_def matches_build_query(1)[where rx = rx and q = "build_query u search st", OF refl None])
next
  case (Some p)
  then have sp: "search = Some p" "p \<noteq> []"
    by (auto simp: build_query_def split: option.splits if_splits)
  with assms obtain m where m: "rx p = Some m" by (auto simp: accepts_def)
  show ?thesis
    by (simp add: list_tasks_def Task_find_def Some m matches_build_query(2)[where rx = rx and q = "build_query u search st", OF refl Some m])
qed

lemma list_tasks_refused:
  assumes "search = Some p" and "p \<noteq> []" and "rx p = None"
  shows "list_tasks rx u search st store = Inl (Forwarded BadRegex)"
  using assms by (simp add: list_tasks_def Task_find_def build_query_def)

lemma plain_atoms: "plain p \<Longrightarrow> map atom_of p = map Lit p"
  by (induction p) (auto simp: plain_def atom_of_def)

lemma match_here_Lit: "match_here (map Lit p) s = starts_with_ci p s"
  by (induction p s rule: starts_with_ci.induct) auto

lemma match_anywhere_iff:
  "match_anywhere as s = (\<exists>i\<le>length s. match_here as (drop i s))"
proof (induction s)
  case Nil
  then show ?case by simp
next
  case (Cons c cs)
  have "(\<exists>i\<le>length (c # cs). match_here as (drop i (c # cs)))
        = (match_here as (c # cs) \<or> (\<exists>j\<le>length cs. match_here as (drop j cs)))"
  proof
    assume "\<exists>i\<le>length (c # cs). match_here as (drop i (c # cs))"
    then obtain i where i: "i \<le> length (c # cs)" "match_here as (drop i (c # cs))" by blast
    show "match_here as (c # cs) \<or> (\<exists>j\<le>length cs. match_here as (drop j cs))"
    proof (cases i)
      case 0
      with i show ?thesis by simp
    next
      case (Suc j)
      with i have "j \<le> length cs" "match_here as (drop j cs)" by simp_all
      then show ?thesis by blast
    qed
  next
    assume "match_here as (c # cs) \<or> (\<exists>j\<le>length cs. match_here as (drop j cs))"
    then show "\<exists>i\<le>length (c # cs). match_here as (drop i (c # cs))"
    proof
      assume "match_here as (c # cs)"
      then have "match_here as (drop 0 (c # cs))" by simp
      then show ?thesis by blast
    next
      assume "\<exists>j\<le>length cs. match_here as (drop j cs)"
      then obtain j where "j \<le> length cs" "match_here as (drop j cs)" by blast
      then have "Suc j \<le> length (c # cs)" "match_here as (drop (Suc j) (c # cs))" by simp_all
      then show ?thesis by blast
    qed
  qed
  with Cons show ?case by simp
qed

lemma contains_ci_iff: "contains_ci p s = (\<exists>i\<le>length s. starts_with_ci p (drop i s))"
proof -
  have "contains_ci p s = (\<exists>i\<in>set [0 ..< Suc (length s)]. starts_with_ci p (drop i s))"
    by (simp add: contains_ci_def list_ex_iff del: upt_Suc)
  also have "\<dots> = (\<exists>i\<le>length s. starts_with_ci p (drop i s))"
    by (auto simp: less_Suc_eq_le simp del: upt_Suc)
  finally show ?thesis .
qed

lemma example_engine_plain:
  "plain p \<Longrightarrow> example_engine p = Some (contains_ci p)"
proof -
  assume p: "plain p"
  then have "list_all (\<lambda>c. c < 128 \<and> c \<notin> set other_metachars) p"
    by (simp add: plain_def list_all_iff)
  moreover have "match_anywhere (map atom_of p) = contains_ci p"
    by (rule ext) (simp add: plain_atoms[OF p] match_anywhere_iff match_here_Lit contains_ci_iff)
  ultimately show ?thesis by (simp add: example_engine_def)
qed

text \<open>
  Against claim C6 as stated: the search text \<^verbatim>\<open>a.c\<close> is no substring of the title
  \<^verbatim>\<open>abc\<close>, in any letter case, yet as a regular expression it matches, and the task
  is listed; and the search text \<^verbatim>\<open>(\<close>, no regular expression, is refused by the
  engine, so that the route answers no list at all but forwards the error.
\<close>

theorem list_tasks_substring_counterexample:
  "list_tasks example_engine 20 (Some (js ''a.c'')) None example_store = Inr [task_b]
   \<and> title task_b = js ''abc''
   \<and> \<not> contains_ci (js ''a.c'') (js ''abc'')
   \<and> filter (\<lambda>t. owner t = 20 \<and> contains_ci (js ''a.c'') (title t)) example_store = []
   \<and> list_tasks example_engine 20 (Some (js ''('')) None example_store
       = Inl (Forwarded BadRegex)"
  by (simp add: list_tasks_def build_query_def Task_find_def matches_def sort_createdAt_desc_def
        ex_defs example_engine_def other_metachars_def atom_of_def to_lower_def contains_ci_def)

text \<open>
  Claim C6, amended. Whenever the engine takes the search text as a regular expression,
  the listing holds exactly the tasks (each as often as the collection does) that the
  caller owns, whose title matches a non-empty search text read as a case-insensitive
  regular expression, and whose status equals a status filter that is one of the three
  values, any other filter being ignored; it is ordered by creation time, newest first,
  and is the empty list, not an error, when no task qualifies.
\<close>

theorem list_tasks_result:
  assumes "accepts rx search"
  shows "\<exists>ts. list_tasks rx u search st store = Inr ts
          \<and> mset ts = filter_mset (wanted rx u search st) (mset store)
          \<and> sorted_wrt (\<lambda>a b. createdAt b \<le> createdAt a) ts
          \<and> (filter (wanted rx u search st) store = [] \<longrightarrow> ts = [])"
proof -
  let ?ts = "sort_createdAt_desc (filter (wanted rx u search st) store)"
  have 1: "list_tasks rx u search st store = Inr ?ts"
    using assms by (rule list_tasks_accepted)
  have 2: "mset ?ts = filter_mset (wanted rx u search st) (mset store)"
    by (simp add: mset_sort_createdAt_desc)
  have 3: "sorted_wrt (\<lambda>a b. createdAt b \<le> createdAt a) ?ts"
    by (rule sorted_sort_createdAt_desc)
  have 4: "filter (wanted rx u search st) store = [] \<longrightarrow> ?ts = []"
    by (simp add: sort_createdAt_desc_def)
  from 1 2 3 4 show ?thesis by blast
qed

theorem list_tasks_result_witness:
  "accepts example_engine (Some (js ''PROJ''))
   \<and> list_tasks example_engine 10 (Some (js ''PROJ'')) (Some (js ''in-progress'')) example_store
       = Inr [task_a]
   \<and> accepts example_engine None
   \<and> filter (wanted example_engine 10 None (Some (js ''completed''))) example_store = []
   \<and> list_tasks example_engine 10 None (Some (js ''completed'')) example_store = Inr []"
proof -
  have p: "plain (js ''PROJ'')" by (simp add: plain_def other_metachars_def js_def)
  have e: "example_engine (js ''PROJ'') = Some (contains_ci (js ''PROJ''))"
    using p by (rule example_engine_plain)
  have a: "accepts example_engine (Some (js ''PROJ''))" "accepts example_engine None"
    by (simp_all add: accepts_def e)
  have f: "filter (wanted example_engine 10 None (Some (js ''completed''))) example_store = []"
    by (simp add: wanted_def status_enum_def ex_defs)
  from list_tasks_result[OF a(2), of 10 "Some (js ''completed'')" example_store] f
  have 1: "list_tasks example_engine 10 None (Some (js ''completed'')) example_store = Inr []"
    by auto
  from list_tasks_result[OF a(1), of 10 "Some (js ''in-progress'')" example_store]
  obtain ts where ts: "list_tasks example_engine 10 (Some (js ''PROJ'')) (Some (js ''in-progress''))
        example_store = Inr ts"
    and m: "mset ts = filter_mset (wanted example_engine 10 (Some (js ''PROJ''))
        (Some (js ''in-progress''))) (mset example_store)"
    by blast
  have c: "contains_ci (js ''PROJ'') (title task_a)"
    by (simp add: contains_ci_def to_lower_def task_a_def js_def)
  have w: "wanted example_engine 10 (Some (js ''PROJ'')) (Some (js ''in-progress'')) task_a"
    "\<not> wanted example_engine 10 (Some (js ''PROJ'')) (Some (js ''in-progress'')) task_b"
    using c by (simp_all add: wanted_def e) (simp_all add: ex_defs)
  from m w have "mset ts = {#task_a#}" by (simp add: example_store_def)
  then have "ts = [task_a]" by simp
  with ts a f 1 show ?thesis by simp
qed

end
